theory Spec2Isabelle
  imports Complex_Main "HOL-Library.AList"
begin

section \<open>Strings\<close>

text \<open>
  Python strings are modelled as \<open>string\<close>. \<open>str_split sep s\<close> is \<open>s.split(sep)\<close> for a
  one-character separator: it never returns the empty list, and an empty input gives one
  empty segment.
\<close>

fun str_split :: "char \<Rightarrow> string \<Rightarrow> string list" where
  "str_split sep [] = [[]]"
| "str_split sep (c # cs) =
     (if c = sep then [] # str_split sep cs
      else (case str_split sep cs of
              [] \<Rightarrow> [[c]]
            | l # ls \<Rightarrow> (c # l) # ls))"

text \<open>
  \<open>str_lower\<close> is \<open>s.lower()\<close> on the ASCII letters; every other character is left as
  it is. No character other than \<open>Y\<close> lowers to \<open>y\<close>, so the test of the first
  character made by the default parse function does not depend on the rest of the table.
\<close>

definition lower_char :: "char \<Rightarrow> char" where
  "lower_char c =
     (if (65::nat) \<le> of_char c \<and> of_char c \<le> (90::nat)
      then char_of (of_char c + (32::nat)) else c)"

definition str_lower :: "string \<Rightarrow> string" where
  "str_lower s = map lower_char s"

fun startswith :: "string \<Rightarrow> string \<Rightarrow> bool" where
  "startswith s [] = True"
| "startswith [] (p # ps) = False"
| "startswith (c # cs) (p # ps) = (c = p \<and> startswith cs ps)"

text \<open>\<open>sep.join(ls)\<close> of Python, for a one-character separator.\<close>

fun join_lines :: "char \<Rightarrow> string list \<Rightarrow> string" where
  "join_lines sep [] = []"
| "join_lines sep [l] = l"
| "join_lines sep (l # ls) = l @ sep # join_lines sep ls"

text \<open>\<open>xs[:n]\<close> of Python: a negative bound counts from the end.\<close>

definition py_slice_to :: "int \<Rightarrow> 'a list \<Rightarrow> 'a list" where
  "py_slice_to n xs =
     (if 0 \<le> n then take (nat n) xs else take (nat (int (length xs) + n)) xs)"

section \<open>Messages\<close>

text \<open>
  A response is a string or a list of responses (\<open>_AppendToMessage\<close> recurses into list
  items). The \<open>types.Message\<close> built from it is the list of its text lines.
\<close>

datatype message = MText string | MList "message list"

fun AppendToMessage :: "string list \<Rightarrow> message \<Rightarrow> string list" where
  "AppendToMessage msg (MText response) = msg @ str_split CHR 0x0A response"
| "AppendToMessage msg (MList response) = foldl AppendToMessage msg response"

definition MakeMessage :: "message \<Rightarrow> string list" where
  "MakeMessage response = AppendToMessage [] response"

text \<open>Truthiness of an optional message: \<open>None\<close>, \<open>''\<close> and \<open>[]\<close> are false.\<close>

fun msg_truthy :: "message option \<Rightarrow> bool" where
  "msg_truthy None = False"
| "msg_truthy (Some (MText s)) = (s \<noteq> [])"
| "msg_truthy (Some (MList ms)) = (ms \<noteq> [])"

section \<open>RequestTracker\<close>

type_synonym user = string

text \<open>
  The values a request dictionary holds. A parse function takes the reply text and
  returns a truth value, or raises (\<open>None\<close>). An action is known by a number; what
  calling it does is given to \<open>ResolveRequest\<close> as \<open>action_fns\<close>. Timestamps are the
  values of \<open>time.time()\<close>, taken as real numbers.
\<close>

datatype val =
    VNone
  | VStr string
  | VNum real
  | VAction nat
  | VParse "string \<Rightarrow> bool option"

type_synonym details = "(string \<times> val) list"

text \<open>
  A dictionary is an object: \<open>request_details\<close> is a reference to it, the tracker stores
  the reference and writes into the object, and the caller keeps its own reference.
\<close>

type_synonym ref = nat

text \<open>How a call of a callback ends.\<close>

datatype outcome = Returns | Raises

datatype py_error = KeyError string | TypeError | CallbackError

text \<open>
  What the tracker does to the outside, in order: calls of \<open>_reply_fn\<close> and of a stored
  action (with the user and the content of the dictionary it is given).
\<close>

datatype tracker_event =
    ReplyFn user val
  | ActionFn nat user details

text \<open>
  The tracker: \<open>_pending_requests\<close> (user to dictionary object), the dictionary objects
  themselves, \<open>_reply_fn\<close> (given by how its call ends), and the calls made so far.
\<close>

record tracker =
  pending_requests :: "user \<rightharpoonup> ref"
  dicts :: "ref \<Rightarrow> details"
  reply_fn :: "user \<Rightarrow> val \<Rightarrow> outcome"
  calls :: "tracker_event list"

text \<open>
  An operation returns the tracker it leaves (\<open>Inr\<close>), or raises and leaves a tracker
  all the same (\<open>Inl\<close>): the object outlives the exception.
\<close>

type_synonym result = "(py_error \<times> tracker) + tracker"

fun after :: "result \<Rightarrow> tracker" where
  "after (Inl (e, t)) = t"
| "after (Inr t) = t"

fun raised :: "result \<Rightarrow> bool" where
  "raised (Inl x) = True"
| "raised (Inr t) = False"

definition new_tracker :: "(ref \<Rightarrow> details) \<Rightarrow> (user \<Rightarrow> val \<Rightarrow> outcome) \<Rightarrow> tracker" where
  "new_tracker ds rf = \<lparr>pending_requests = Map.empty, dicts = ds, reply_fn = rf, calls = []\<rparr>"

definition REQUEST_TIMEOUT_SEC :: real where
  "REQUEST_TIMEOUT_SEC = 60"

definition default_parse_fn :: "string \<Rightarrow> bool" where
  "default_parse_fn x = startswith (str_lower x) ''y''"

text \<open>A function that never raises, as a callback.\<close>

definition returning :: "('a \<Rightarrow> 'b) \<Rightarrow> 'a \<Rightarrow> 'b option" where
  "returning f x = Some (f x)"

definition HasPendingRequest :: "tracker \<Rightarrow> user \<Rightarrow> bool" where
  "HasPendingRequest t user = (pending_requests t user \<noteq> None)"

text \<open>\<open>self._reply_fn(user, v)\<close>: the call is made, and returns or raises.\<close>

definition call_reply :: "user \<Rightarrow> val \<Rightarrow> tracker \<Rightarrow> result" where
  "call_reply user v t =
     (let t' = t\<lparr>calls := calls t @ [ReplyFn user v]\<rparr>
      in case reply_fn t user v of
           Returns \<Rightarrow> Inr t'
         | Raises \<Rightarrow> Inl (CallbackError, t'))"

text \<open>
  The tail of \<open>RequestConfirmation\<close>, reached when the call is not rejected: the three
  bookkeeping keys are written into the caller's dictionary object, the reference is
  stored, and the prompt is sent.
\<close>

definition store_request ::
  "real \<Rightarrow> user \<Rightarrow> string \<Rightarrow> ref \<Rightarrow> nat \<Rightarrow> (string \<Rightarrow> bool option) option \<Rightarrow> tracker \<Rightarrow> result"
where
  "store_request now user summary request_details action_fn parse_fn t =
     (let d1 = AList.update ''timestamp'' (VNum now) (dicts t request_details);
          d2 = AList.update ''action'' (VAction action_fn) d1;
          p = (case parse_fn of None \<Rightarrow> returning default_parse_fn | Some f \<Rightarrow> f);
          d3 = AList.update ''parse'' (VParse p) d2
      in call_reply user (VStr (''Confirm '' @ summary @ ''?''))
           (t\<lparr>dicts := (dicts t)(request_details := d3),
              pending_requests := (pending_requests t)(user \<mapsto> request_details)\<rparr>))"

text \<open>\<open>now\<close> is the value \<open>time.time()\<close> returned on entry.\<close>

definition RequestConfirmation ::
  "real \<Rightarrow> user \<Rightarrow> string \<Rightarrow> ref \<Rightarrow> nat \<Rightarrow> (string \<Rightarrow> bool option) option \<Rightarrow> tracker
     \<Rightarrow> result"
where
  "RequestConfirmation now user summary request_details action_fn parse_fn t =
     (case pending_requests t user of
        None \<Rightarrow> store_request now user summary request_details action_fn parse_fn t
      | Some previous_request \<Rightarrow>
          if dicts t previous_request = []
          then store_request now user summary request_details action_fn parse_fn t
          else
            (case map_of (dicts t previous_request) ''timestamp'' of
               None \<Rightarrow> Inl (KeyError ''timestamp'', t)
             | Some (VNum ts) \<Rightarrow>
                 if now - ts < REQUEST_TIMEOUT_SEC
                 then call_reply user
                        (VStr ''Confirm prior request before submitting another.'') t
                 else store_request now user summary request_details action_fn parse_fn
                        (t\<lparr>pending_requests := (pending_requests t)(user := None)\<rparr>)
             | Some _ \<Rightarrow> Inl (TypeError, t)))"

text \<open>
  The three branches of \<open>ResolveRequest\<close> after the parse function has returned; the
  \<open>del\<close> that follows them is in \<open>ResolveRequest\<close>.
\<close>

definition resolve_branches ::
  "(nat \<Rightarrow> user \<Rightarrow> details \<Rightarrow> outcome) \<Rightarrow> real \<Rightarrow> user \<Rightarrow> details \<Rightarrow> bool \<Rightarrow> tracker \<Rightarrow> result"
where
  "resolve_branches action_fns now user request_details confirmed t =
     (if \<not> confirmed then call_reply user (VStr ''Cancelling request.'') t
      else
        (case map_of request_details ''timestamp'' of
           None \<Rightarrow> Inl (KeyError ''timestamp'', t)
         | Some (VNum ts) \<Rightarrow>
             if now - ts \<ge> REQUEST_TIMEOUT_SEC
             then call_reply user (VStr ''You took too long to confirm, try again.'') t
             else
               (case call_reply user
                       (case map_of request_details ''action_text'' of
                          None \<Rightarrow> VStr ''Confirmation accepted.''
                        | Some v \<Rightarrow> v) t of
                  Inl x \<Rightarrow> Inl x
                | Inr t1 \<Rightarrow>
                    (case map_of request_details ''action'' of
                       None \<Rightarrow> Inl (KeyError ''action'', t1)
                     | Some (VAction action) \<Rightarrow>
                         (let t2 = t1\<lparr>calls := calls t1 @
                                      [ActionFn action user request_details]\<rparr>
                          in case action_fns action user request_details of
                               Returns \<Rightarrow> Inr t2
                             | Raises \<Rightarrow> Inl (CallbackError, t2))
                     | Some _ \<Rightarrow> Inl (TypeError, t1)))
         | Some _ \<Rightarrow> Inl (TypeError, t)))"

text \<open>
  \<open>ResolveRequest\<close>. The \<open>del\<close> is the last statement, outside any \<open>try\<close>: it is reached
  only when the parse function, \<open>_reply_fn\<close> and the action have all returned.
\<close>

definition ResolveRequest ::
  "(nat \<Rightarrow> user \<Rightarrow> details \<Rightarrow> outcome) \<Rightarrow> real \<Rightarrow> user \<Rightarrow> string \<Rightarrow> tracker \<Rightarrow> result"
where
  "ResolveRequest action_fns now user user_msg t =
     (case pending_requests t user of
        None \<Rightarrow> Inr t
      | Some r \<Rightarrow>
          (let request_details = dicts t r
           in if request_details = [] then Inr t
              else
                (case map_of request_details ''parse'' of
                   None \<Rightarrow> Inl (KeyError ''parse'', t)
                 | Some (VParse parse) \<Rightarrow>
                     (case parse user_msg of
                        None \<Rightarrow> Inl (CallbackError, t)
                      | Some confirmed \<Rightarrow>
                          (case resolve_branches action_fns now user request_details
                                  confirmed t of
                             Inl x \<Rightarrow> Inl x
                           | Inr t' \<Rightarrow>
                               Inr (t'\<lparr>pending_requests :=
                                          (pending_requests t')(user := None)\<rparr>)))
                 | Some _ \<Rightarrow> Inl (TypeError, t))))"

text \<open>
  A run of \<open>RequestConfirmation\<close> calls for one user, each with its own clock reading and
  arguments and each made on the tracker the call before left, whether that call returned
  or raised. The run gives the result of every call and the tracker at the end.
\<close>

record request =
  req_now :: real
  req_summary :: string
  req_details :: ref
  req_action :: nat
  req_parse :: "(string \<Rightarrow> bool option) option"

fun RequestConfirmations :: "user \<Rightarrow> request list \<Rightarrow> tracker \<Rightarrow> result list \<times> tracker" where
  "RequestConfirmations user [] t = ([], t)"
| "RequestConfirmations user (r # rs) t =
     (let res = RequestConfirmation (req_now r) user (req_summary r) (req_details r)
                  (req_action r) (req_parse r) t;
          rest = RequestConfirmations user rs (after res)
      in (res # fst rest, snd rest))"

section \<open>Core.Reply and OutputUtil\<close>

datatype visibility = PUBLIC | PRIVATE

record channel =
  id' :: string
  visibility :: visibility
  name :: string

text \<open>A \<open>types.Target\<close>: a structured channel, or the legacy bare string.\<close>

datatype target = TChannel channel | TString string

text \<open>
  What \<open>Reply\<close> and \<open>ReloadData\<close> do to the outside, in order: sends through the
  interface, log records, the flush of the proxy cache and the reloads handed to the runner
  (named by the attribute that holds the object).
\<close>

datatype event =
    SendMessage channel "string list"
  | Log int "message option"
  | LogInfo string
  | LogNoChannel message
  | FlushCache
  | RunAsync string

definition logging_INFO :: int where
  "logging_INFO = 0"

text \<open>
  \<open>channel or default_channel\<close>: a string is false when empty, a \<open>Channel\<close> object is
  always true.
\<close>

fun target_truthy :: "target option \<Rightarrow> bool" where
  "target_truthy None = False"
| "target_truthy (Some (TChannel c)) = True"
| "target_truthy (Some (TString s)) = (s \<noteq> [])"

definition resolve_channel :: "target option \<Rightarrow> channel option \<Rightarrow> target option" where
  "resolve_channel channel default_channel =
     (if target_truthy channel then channel else map_option TChannel default_channel)"

fun user_truthy :: "user option \<Rightarrow> bool" where
  "user_truthy None = False"
| "user_truthy (Some u) = (u \<noteq> [])"

text \<open>
  The legacy branch of \<open>Reply\<close>. \<open>channel.split(':')[0]\<close> cannot raise, since
  \<open>str_split\<close> returns at least one segment; the branch for the empty list is never taken.
\<close>

fun normalize_channel :: "target \<Rightarrow> channel" where
  "normalize_channel (TChannel c) = c"
| "normalize_channel (TString s) =
     \<lparr>id' = (case str_split CHR '':'' s of [] \<Rightarrow> [] | x # _ \<Rightarrow> x),
      visibility = PRIVATE,
      name = s\<rparr>"

definition Reply ::
  "target option \<Rightarrow> message option \<Rightarrow> channel option \<Rightarrow> bool \<Rightarrow> int \<Rightarrow> user option
     \<Rightarrow> bool \<Rightarrow> int \<Rightarrow> event list"
where
  "Reply channel msg default_channel limit_lines max_public_lines user log' log_level =
     (if \<not> msg_truthy msg then []
      else
        (if log' then [Log log_level msg] else []) @
        (let channel1 = resolve_channel channel default_channel
         in case (channel1, msg) of
              (None, Some m) \<Rightarrow> [LogNoChannel m]
            | (Some tgt, Some m) \<Rightarrow>
                (let ch = normalize_channel tgt
                 in case m of
                      MList items \<Rightarrow>
                        if limit_lines \<and> visibility ch = PUBLIC
                           \<and> int (length items) > max_public_lines
                        then
                          (if user_truthy user
                           then [SendMessage ch
                                   (MakeMessage (MText ''It's long so I sent it privately.'')),
                                 SendMessage
                                   \<lparr>id' = the user, visibility = PRIVATE, name = the user\<rparr>
                                   (MakeMessage m)]
                           else [SendMessage ch
                                   (MakeMessage
                                      (MList (py_slice_to max_public_lines items
                                              @ [MText ''...''])))])
                        else [SendMessage ch (MakeMessage m)]
                    | MText s \<Rightarrow> [SendMessage ch (MakeMessage m)])
            | (_, None) \<Rightarrow> []))"

text \<open>
  \<open>OutputUtil\<close> built on \<open>Reply\<close>, as \<open>Core\<close> builds it: \<open>Output\<close> calls \<open>Reply\<close>
  with every optional argument at its default.
\<close>

definition Output :: "target option \<Rightarrow> message option \<Rightarrow> event list" where
  "Output channel message = Reply channel message None False 6 None False logging_INFO"

definition LogAndOutput :: "int \<Rightarrow> target option \<Rightarrow> message option \<Rightarrow> event list" where
  "LogAndOutput log_level channel message = Log log_level message # Output channel message"

section \<open>Core.ReloadData\<close>

text \<open>
  The part of \<open>Core\<close> that \<open>ReloadData\<close> reads: the runner's idle flag and the
  attributes of the object (\<open>self.__dict__\<close>), each with its class name and whether it
  has a \<open>ReloadData\<close> attribute.
\<close>

record attr_obj =
  class_name :: string
  has_ReloadData :: bool

record core =
  runner_IsIdle :: bool
  dict :: "(string \<times> attr_obj) list"

fun reload_attr :: "string \<times> attr_obj \<Rightarrow> event list" where
  "reload_attr (attr, obj) =
     (if has_ReloadData obj
      then [LogInfo (''Triggering reload for: '' @ class_name obj), RunAsync attr]
      else [])"

definition ReloadData :: "core \<Rightarrow> bool \<times> event list" where
  "ReloadData self =
     (if \<not> runner_IsIdle self
      then (False, [LogInfo ''Runner not idle, can not trigger reload.''])
      else (True, FlushCache # concat (map reload_attr (dict self))))"

section \<open>Invariant of the tracker and example values\<close>

text \<open>
  Every dictionary the tracker has stored holds a timestamp, an action and a parse
  function, as long as nothing but the tracker writes into it; \<open>tracker_ok\<close> says so of a
  whole tracker. The other definitions are the concrete values the properties below are
  evaluated on.
\<close>

definition entry_ok :: "details \<Rightarrow> bool" where
  "entry_ok rd =
     (\<exists>ts a p. map_of rd ''timestamp'' = Some (VNum ts)
        \<and> map_of rd ''action'' = Some (VAction a)
        \<and> map_of rd ''parse'' = Some (VParse p))"

definition tracker_ok :: "tracker \<Rightarrow> bool" where
  "tracker_ok t = (\<forall>u r. pending_requests t u = Some r \<longrightarrow> entry_ok (dicts t r))"

text \<open>Callbacks that always return, and an action that raises.\<close>

definition reply_returns :: "user \<Rightarrow> val \<Rightarrow> outcome" where
  "reply_returns u v = Returns"

definition actions_return :: "nat \<Rightarrow> user \<Rightarrow> details \<Rightarrow> outcome" where
  "actions_return a u d = Returns"

definition actions_raise :: "nat \<Rightarrow> user \<Rightarrow> details \<Rightarrow> outcome" where
  "actions_raise a u d = Raises"

text \<open>Dictionary object 5 holds an \<open>action_text\<close>; every other object is empty.\<close>

definition example_dicts :: "ref \<Rightarrow> details" where
  "example_dicts r = (if r = 5 then [(''action_text'', VStr ''Filed.'')] else [])"

definition empty_tracker :: tracker where
  "empty_tracker = new_tracker example_dicts reply_returns"

definition alice_requests :: "request list" where
  "alice_requests =
     [\<lparr>req_now = 110, req_summary = ''second'', req_details = 6, req_action = 8,
       req_parse = None\<rparr>,
      \<lparr>req_now = 159, req_summary = ''third'', req_details = 5,
       req_action = 9, req_parse = Some (\<lambda>x. Some (x = ''ok''))\<rparr>]"

definition alice_details :: details where
  "alice_details =
     [(''action_text'', VStr ''Filed.''), (''timestamp'', VNum 100), (''action'', VAction 7),
      (''parse'', VParse (returning default_parse_fn))]"

text \<open>The tracker after alice's request at time 100, made with dictionary object 5.\<close>

definition alice_tracker :: tracker where
  "alice_tracker =
     \<lparr>pending_requests = [''alice'' \<mapsto> 5],
      dicts = example_dicts(5 := alice_details),
      reply_fn = reply_returns,
      calls = [ReplyFn ''alice'' (VStr ''Confirm file issue?'')]\<rparr>"

text \<open>The dictionary after the tail of \<open>RequestConfirmation\<close> has written into it.\<close>

definition stored :: "real \<Rightarrow> nat \<Rightarrow> (string \<Rightarrow> bool option) option \<Rightarrow> details \<Rightarrow> details" where
  "stored now a pf d =
     AList.update ''parse''
       (VParse (case pf of None \<Rightarrow> returning default_parse_fn | Some f \<Rightarrow> f))
       (AList.update ''action'' (VAction a) (AList.update ''timestamp'' (VNum now) d))"

definition public_channel :: channel where
  "public_channel = \<lparr>id' = ''#hype'', visibility = PUBLIC, name = ''hype''\<rparr>"

fun scheduled :: "event list \<Rightarrow> string list" where
  "scheduled [] = []"
| "scheduled (RunAsync a # es) = a # scheduled es"
| "scheduled (e # es) = scheduled es"

definition long_message :: message where
  "long_message = MList [MText ''1'', MText ''2'', MText ''3'', MText ''4'']"

definition example_core :: core where
  "example_core =
     \<lparr>runner_IsIdle = True,
      dict = [(''nick'', \<lparr>class_name = ''str'', has_ReloadData = False\<rparr>),
              (''store'', \<lparr>class_name = ''RedisStore'', has_ReloadData = True\<rparr>),
              (''proxy'', \<lparr>class_name = ''Proxy'', has_ReloadData = False\<rparr>),
              (''stocks'', \<lparr>class_name = ''StockLib'', has_ReloadData = True\<rparr>)]\<rparr>"

section \<open>Properties of the strings and of the flattening\<close>

lemma str_split_nonempty: "str_split sep s \<noteq> []"
  by (induction s) (auto split: list.splits)

lemma str_split_no_sep: "sep \<notin> set s \<Longrightarrow> str_split sep s = [s]"
  by (induction s) auto

lemma str_split_lines: "l \<in> set (str_split sep s) \<Longrightarrow> sep \<notin> set l"
  by (induction s arbitrary: l) (auto split: if_splits list.splits)

lemma str_split_head: "str_split sep s = takeWhile (\<lambda>c. c \<noteq> sep) s # tl (str_split sep s)"
  by (induction s) (auto split: list.splits)

lemma join_lines_Cons: "join_lines sep ((a # l) # ls) = a # join_lines sep (l # ls)"
  by (cases ls) simp_all

lemma join_split: "join_lines sep (str_split sep s) = s"
proof (induction s)
  case Nil
  show ?case by simp
next
  case (Cons c cs)
  obtain l ls where r: "str_split sep cs = l # ls"
    using str_split_nonempty [of sep cs] by (cases "str_split sep cs") auto
  show ?case
  proof (cases "c = sep")
    case True
    then show ?thesis using Cons r by simp
  next
    case False
    then show ?thesis using Cons r by (simp add: join_lines_Cons)
  qed
qed

lemma AppendToMessage_acc: "AppendToMessage acc m = acc @ AppendToMessage [] m"
proof (induction m arbitrary: acc)
  case (MText s)
  show ?case by simp
next
  case (MList ms)
  have "foldl AppendToMessage a ms = a @ foldl AppendToMessage [] ms" for a
    using MList
  proof (induction ms arbitrary: a rule: rev_induct)
    case Nil
    show ?case by simp
  next
    case (snoc x xs)
    let ?F = "foldl AppendToMessage [] xs"
    have ih: "foldl AppendToMessage b xs = b @ ?F" for b
      by (rule snoc.IH) (rule snoc.prems, simp)
    have x: "AppendToMessage b x = b @ AppendToMessage [] x" for b
      by (rule snoc.prems) simp
    have "foldl AppendToMessage a (xs @ [x]) = AppendToMessage (foldl AppendToMessage a xs) x"
      by simp
    also have "\<dots> = AppendToMessage (a @ ?F) x"
      by (simp only: ih [of a])
    also have "\<dots> = (a @ ?F) @ AppendToMessage [] x"
      by (rule x)
    also have "\<dots> = a @ AppendToMessage ?F x"
      by (simp only: x [of ?F] append_assoc)
    also have "\<dots> = a @ foldl AppendToMessage [] (xs @ [x])"
      by simp
    finally show ?case .
  qed
  from this [of acc] show ?case by simp
qed

lemma foldl_AppendToMessage:
  "foldl AppendToMessage acc ms = acc @ concat (map MakeMessage ms)"
proof (induction ms arbitrary: acc)
  case Nil
  show ?case by simp
next
  case (Cons m ms)
  show ?case
    by (simp add: Cons.IH MakeMessage_def AppendToMessage_acc [of acc m])
qed

lemma MakeMessage_MText: "MakeMessage (MText s) = str_split CHR 0x0A s"
  by (simp add: MakeMessage_def)

lemma MakeMessage_MList: "MakeMessage (MList ms) = concat (map MakeMessage ms)"
  by (simp add: MakeMessage_def foldl_AppendToMessage)

lemma MakeMessage_lines: "l \<in> set (MakeMessage m) \<Longrightarrow> CHR 0x0A \<notin> set l"
proof (induction m arbitrary: l)
  case (MText s)
  then show ?case by (simp add: MakeMessage_MText str_split_lines)
next
  case (MList ms)
  then show ?case by (auto simp: MakeMessage_MList)
qed

lemma MakeMessage_flat:
  "\<forall>l\<in>set ls. CHR 0x0A \<notin> set l \<Longrightarrow> MakeMessage (MList (map MText ls)) = ls"
  by (induction ls) (auto simp: MakeMessage_MList MakeMessage_MText str_split_no_sep)

text \<open>
  C5. Flattening a response gives its lines in order: a string is split at every newline
  (and joining the lines again gives the string back), a list is the concatenation of the
  flattenings of its items, and no line of the result holds a newline. The nested example
  flattens to the five lines a, b, c, d, e, and a flat list of single lines is returned as
  it is.
\<close>

theorem flatten_C5:
  "MakeMessage (MList [MText ''a\<newline>b'', MList [MText ''c'', MText ''d\<newline>e'']])
     = [''a'', ''b'', ''c'', ''d'', ''e'']
   \<and> (\<forall>ls. (\<forall>l\<in>set ls. CHR 0x0A \<notin> set l) \<longrightarrow> MakeMessage (MList (map MText ls)) = ls)
   \<and> (\<forall>s. MakeMessage (MText s) = str_split CHR 0x0A s
          \<and> join_lines CHR 0x0A (MakeMessage (MText s)) = s)
   \<and> (\<forall>ms. MakeMessage (MList ms) = concat (map MakeMessage ms))
   \<and> (\<forall>m. \<forall>l\<in>set (MakeMessage m). CHR 0x0A \<notin> set l)"
proof (intro conjI allI impI ballI)
  show "MakeMessage (MList [MText ''a\<newline>b'', MList [MText ''c'', MText ''d\<newline>e'']])
     = [''a'', ''b'', ''c'', ''d'', ''e'']"
    by (simp add: MakeMessage_def)
next
  fix ls :: "string list"
  assume "\<forall>l\<in>set ls. CHR 0x0A \<notin> set l"
  then show "MakeMessage (MList (map MText ls)) = ls" by (rule MakeMessage_flat)
next
  fix s
  show "MakeMessage (MText s) = str_split CHR 0x0A s" by (rule MakeMessage_MText)
  show "join_lines CHR 0x0A (MakeMessage (MText s)) = s"
    by (simp only: MakeMessage_MText join_split)
next
  fix ms
  show "MakeMessage (MList ms) = concat (map MakeMessage ms)" by (rule MakeMessage_MList)
next
  fix m l
  assume "l \<in> set (MakeMessage m)"
  then show "CHR 0x0A \<notin> set l" by (rule MakeMessage_lines)
qed

theorem flatten_C5_witness:
  "CHR 0x0A \<notin> set ''x'' \<and> CHR 0x0A \<notin> set ''yz''
   \<and> MakeMessage (MList (map MText [''x'', ''yz''])) = [''x'', ''yz'']"
proof -
  have h: "\<forall>l\<in>set [''x'', ''yz'']. CHR 0x0A \<notin> set l" by simp
  note r = flatten_C5 [THEN conjunct2, THEN conjunct1, THEN spec, THEN mp, of "[''x'', ''yz'']"]
  have a: "CHR 0x0A \<notin> set ''x''" and b: "CHR 0x0A \<notin> set ''yz''" by simp_all
  show ?thesis by (intro conjI a b r [OF h])
qed

section \<open>Properties of the request tracker\<close>

lemma lower_char_y: "lower_char c = CHR ''y'' \<longleftrightarrow> c = CHR ''y'' \<or> c = CHR ''Y''"
proof (cases "(65::nat) \<le> of_char c \<and> of_char c \<le> (90::nat)")
  case True
  have lt: "of_char c + (32::nat) < 256" using True by simp
  have "lower_char c = CHR ''y'' \<longleftrightarrow> (of_char (lower_char c) :: nat) = of_char (CHR ''y'')"
    by (simp only: of_char_eq_iff)
  also have "\<dots> \<longleftrightarrow> (of_char c + 32 :: nat) = 121"
    using True lt by (simp add: lower_char_def)
  also have "\<dots> \<longleftrightarrow> (of_char c :: nat) = of_char (CHR ''Y'')" by simp
  also have "\<dots> \<longleftrightarrow> c = CHR ''Y''" by (simp only: of_char_eq_iff)
  finally have a: "lower_char c = CHR ''y'' \<longleftrightarrow> c = CHR ''Y''" .
  have "c \<noteq> CHR ''y''" using True by auto
  with a show ?thesis by simp
next
  case False
  then have "lower_char c = c" unfolding lower_char_def by (simp only: if_False)
  moreover have "c \<noteq> CHR ''Y''" using False by auto
  ultimately show ?thesis by simp
qed

lemma default_parse_fn_iff:
  "default_parse_fn x \<longleftrightarrow> (\<exists>cs. x = CHR ''y'' # cs \<or> x = CHR ''Y'' # cs)"
proof (cases x)
  case Nil
  then show ?thesis by (simp add: default_parse_fn_def str_lower_def)
next
  case (Cons c cs)
  then show ?thesis by (auto simp: default_parse_fn_def str_lower_def lower_char_y)
qed

lemma default_parse_fn_examples:
  "default_parse_fn ''Yes''" "default_parse_fn ''y''" "default_parse_fn ''YEAH''"
  "\<not> default_parse_fn ''no''" "\<not> default_parse_fn []"
  by (simp_all add: default_parse_fn_iff)

lemma call_reply_cases:
  "call_reply user v t =
     (case reply_fn t user v of
        Returns \<Rightarrow> Inr (t\<lparr>calls := calls t @ [ReplyFn user v]\<rparr>)
      | Raises \<Rightarrow> Inl (CallbackError, t\<lparr>calls := calls t @ [ReplyFn user v]\<rparr>))"
  by (simp add: call_reply_def Let_def)

lemma after_call_reply: "after (call_reply user v t) = t\<lparr>calls := calls t @ [ReplyFn user v]\<rparr>"
  by (simp add: call_reply_cases split: outcome.split)

lemma raised_call_reply: "raised (call_reply user v t) \<longleftrightarrow> reply_fn t user v = Raises"
  by (simp add: call_reply_cases split: outcome.split)

lemma call_reply_returns:
  "reply_fn t user v = Returns \<Longrightarrow>
   call_reply user v t = Inr (t\<lparr>calls := calls t @ [ReplyFn user v]\<rparr>)"
  by (simp add: call_reply_cases)

lemma store_request_eq:
  "store_request now user summary r a pf t =
     call_reply user (VStr (''Confirm '' @ summary @ ''?''))
       (t\<lparr>dicts := (dicts t)(r := stored now a pf (dicts t r)),
          pending_requests := (pending_requests t)(user \<mapsto> r)\<rparr>)"
  by (simp add: store_request_def stored_def Let_def)

lemma stored_fields:
  "map_of (stored now a pf d) ''timestamp'' = Some (VNum now)"
  "map_of (stored now a pf d) ''action'' = Some (VAction a)"
  "map_of (stored now a pf d) ''parse'' =
     Some (VParse (case pf of None \<Rightarrow> returning default_parse_fn | Some f \<Rightarrow> f))"
  by (simp_all add: stored_def update_conv')

lemma stored_other:
  "k \<noteq> ''timestamp'' \<Longrightarrow> k \<noteq> ''action'' \<Longrightarrow> k \<noteq> ''parse'' \<Longrightarrow>
   map_of (stored now a pf d) k = map_of d k"
  by (simp add: stored_def update_conv')

lemma after_store_request:
  "after (store_request now user summary r a pf t) =
     t\<lparr>dicts := (dicts t)(r := stored now a pf (dicts t r)),
       pending_requests := (pending_requests t)(user \<mapsto> r),
       calls := calls t @ [ReplyFn user (VStr (''Confirm '' @ summary @ ''?''))]\<rparr>"
  by (simp add: store_request_eq after_call_reply)

lemma raised_store_request:
  "raised (store_request now user summary r a pf t) \<longleftrightarrow>
     reply_fn t user (VStr (''Confirm '' @ summary @ ''?'')) = Raises"
  by (simp add: store_request_eq raised_call_reply)

lemma RequestConfirmation_fresh:
  "pending_requests t user = None \<Longrightarrow>
   RequestConfirmation now user summary r a pf t = store_request now user summary r a pf t"
  by (simp add: RequestConfirmation_def)

lemma RequestConfirmation_rejected:
  assumes "pending_requests t user = Some r"
    and "map_of (dicts t r) ''timestamp'' = Some (VNum ts)"
    and "now - ts < 60"
  shows "RequestConfirmation now user summary r' a pf t =
     call_reply user (VStr ''Confirm prior request before submitting another.'') t"
proof -
  have "dicts t r \<noteq> []" using assms(2) by auto
  then show ?thesis
    using assms by (simp add: RequestConfirmation_def REQUEST_TIMEOUT_SEC_def)
qed

lemma RequestConfirmation_expired:
  assumes "pending_requests t user = Some r"
    and "map_of (dicts t r) ''timestamp'' = Some (VNum ts)"
    and "\<not> now - ts < 60"
  shows "RequestConfirmation now user summary r' a pf t =
     store_request now user summary r' a pf
       (t\<lparr>pending_requests := (pending_requests t)(user := None)\<rparr>)"
proof -
  have "dicts t r \<noteq> []" using assms(2) by auto
  then show ?thesis
    using assms by (simp add: RequestConfirmation_def REQUEST_TIMEOUT_SEC_def)
qed

lemma ResolveRequest_parsed:
  assumes "pending_requests t user = Some r"
    and "map_of (dicts t r) ''parse'' = Some (VParse p)"
    and "p msg = Some c"
  shows "ResolveRequest acts now user msg t =
     (case resolve_branches acts now user (dicts t r) c t of
        Inl x \<Rightarrow> Inl x
      | Inr t' \<Rightarrow> Inr (t'\<lparr>pending_requests := (pending_requests t')(user := None)\<rparr>))"
proof -
  have "dicts t r \<noteq> []" using assms(2) by auto
  then show ?thesis using assms by (simp add: ResolveRequest_def Let_def)
qed

lemma ResolveRequest_parse_raises:
  assumes "pending_requests t user = Some r"
    and "map_of (dicts t r) ''parse'' = Some (VParse p)"
    and "p msg = None"
  shows "ResolveRequest acts now user msg t = Inl (CallbackError, t)"
proof -
  have "dicts t r \<noteq> []" using assms(2) by auto
  then show ?thesis using assms by (simp add: ResolveRequest_def Let_def)
qed

lemma ResolveRequest_denied:
  assumes "pending_requests t user = Some r"
    and "map_of (dicts t r) ''parse'' = Some (VParse p)"
    and "p msg = Some False"
  shows "ResolveRequest acts now user msg t =
     (case reply_fn t user (VStr ''Cancelling request.'') of
        Returns \<Rightarrow>
          Inr (t\<lparr>pending_requests := (pending_requests t)(user := None),
                 calls := calls t @ [ReplyFn user (VStr ''Cancelling request.'')]\<rparr>)
      | Raises \<Rightarrow>
          Inl (CallbackError,
               t\<lparr>calls := calls t @ [ReplyFn user (VStr ''Cancelling request.'')]\<rparr>))"
  by (simp add: ResolveRequest_parsed [OF assms] resolve_branches_def call_reply_cases
      split: outcome.split)

lemma ResolveRequest_expired:
  assumes "pending_requests t user = Some r"
    and "map_of (dicts t r) ''parse'' = Some (VParse p)"
    and "map_of (dicts t r) ''timestamp'' = Some (VNum ts)"
    and "p msg = Some True" and "now - ts \<ge> 60"
  shows "ResolveRequest acts now user msg t =
     (case reply_fn t user (VStr ''You took too long to confirm, try again.'') of
        Returns \<Rightarrow>
          Inr (t\<lparr>pending_requests := (pending_requests t)(user := None),
                 calls := calls t @
                   [ReplyFn user (VStr ''You took too long to confirm, try again.'')]\<rparr>)
      | Raises \<Rightarrow>
          Inl (CallbackError,
               t\<lparr>calls := calls t @
                   [ReplyFn user (VStr ''You took too long to confirm, try again.'')]\<rparr>))"
  using assms(3) assms(5)
  by (simp add: ResolveRequest_parsed [OF assms(1) assms(2) assms(4)] resolve_branches_def
      call_reply_cases REQUEST_TIMEOUT_SEC_def split: outcome.split)

lemma ResolveRequest_confirmed:
  assumes "pending_requests t user = Some r"
    and "map_of (dicts t r) ''parse'' = Some (VParse p)"
    and "map_of (dicts t r) ''timestamp'' = Some (VNum ts)"
    and "map_of (dicts t r) ''action'' = Some (VAction a)"
    and "p msg = Some True" and "now - ts < 60"
  shows "ResolveRequest acts now user msg t =
     (case reply_fn t user
             (case map_of (dicts t r) ''action_text'' of
                None \<Rightarrow> VStr ''Confirmation accepted.'' | Some v \<Rightarrow> v) of
        Raises \<Rightarrow>
          Inl (CallbackError,
               t\<lparr>calls := calls t @
                   [ReplyFn user (case map_of (dicts t r) ''action_text'' of
                                    None \<Rightarrow> VStr ''Confirmation accepted.'' | Some v \<Rightarrow> v)]\<rparr>)
      | Returns \<Rightarrow>
          (case acts a user (dicts t r) of
             Returns \<Rightarrow>
               Inr (t\<lparr>pending_requests := (pending_requests t)(user := None),
                      calls := calls t @
                        [ReplyFn user (case map_of (dicts t r) ''action_text'' of
                                         None \<Rightarrow> VStr ''Confirmation accepted.'' | Some v \<Rightarrow> v),
                         ActionFn a user (dicts t r)]\<rparr>)
           | Raises \<Rightarrow>
               Inl (CallbackError,
                    t\<lparr>calls := calls t @
                        [ReplyFn user (case map_of (dicts t r) ''action_text'' of
                                         None \<Rightarrow> VStr ''Confirmation accepted.'' | Some v \<Rightarrow> v),
                         ActionFn a user (dicts t r)]\<rparr>)))"
  using assms(3) assms(4) assms(6)
  by (simp add: ResolveRequest_parsed [OF assms(1) assms(2) assms(5)] resolve_branches_def
      call_reply_cases REQUEST_TIMEOUT_SEC_def Let_def split: outcome.split)

lemma RequestConfirmations_rejected:
  assumes "pending_requests t user = Some r"
    and "map_of (dicts t r) ''timestamp'' = Some (VNum ts)"
    and "\<forall>q\<in>set rs. req_now q - ts < 60"
  shows "RequestConfirmations user rs t =
     (map (\<lambda>k. call_reply user (VStr ''Confirm prior request before submitting another.'')
                 (t\<lparr>calls := calls t @ replicate k
                    (ReplyFn user (VStr ''Confirm prior request before submitting another.''))\<rparr>))
          [0..<length rs],
      t\<lparr>calls := calls t @ replicate (length rs)
         (ReplyFn user (VStr ''Confirm prior request before submitting another.''))\<rparr>)"
  using assms
proof (induction rs arbitrary: t)
  case Nil
  show ?case by simp
next
  case (Cons q rs)
  let ?m = "VStr ''Confirm prior request before submitting another.''"
  let ?t1 = "t\<lparr>calls := calls t @ [ReplyFn user ?m]\<rparr>"
  have lt: "req_now q - ts < 60" using Cons.prems(3) by simp
  have step: "RequestConfirmation (req_now q) user (req_summary q) (req_details q)
             (req_action q) (req_parse q) t = call_reply user ?m t"
    by (rule RequestConfirmation_rejected [OF Cons.prems(1) Cons.prems(2) lt])
  have aft: "after (call_reply user ?m t) = ?t1" by (rule after_call_reply)
  have p1: "pending_requests ?t1 user = Some r" using Cons.prems(1) by simp
  have d1: "map_of (dicts ?t1 r) ''timestamp'' = Some (VNum ts)" using Cons.prems(2) by simp
  have rest: "\<forall>q\<in>set rs. req_now q - ts < 60" using Cons.prems(3) by simp
  note ih = Cons.IH [OF p1 d1 rest]
  have idx: "[0..<length (q # rs)] = 0 # map Suc [0..<length rs]"
    by (simp add: upt_conv_Cons map_Suc_upt del: upt_Suc)
  show ?case
    unfolding idx
    by (simp add: step aft ih Let_def replicate_app_Cons_same o_def del: upt_Suc)
qed

text \<open>
  C1. When a user has no pending request, a call of \<open>RequestConfirmation\<close> stores the
  caller's dictionary for the user, with the clock reading as its timestamp and the given
  action (and it raises only if the prompt's \<open>_reply_fn\<close> does). Every further call for
  the same user whose clock reading is less than 60 seconds after that timestamp, with no
  \<open>ResolveRequest\<close> in between, is nothing but a call of \<open>_reply_fn\<close> with ``Confirm
  prior request before submitting another.'': whatever dictionary, action and parse
  function it is given, and whether \<open>_reply_fn\<close> returns or raises, the map of pending
  requests and the dictionaries, and with them the stored action, stay as the first call
  left them.
\<close>

theorem one_pending_request_C1:
  assumes "pending_requests t user = None"
    and "\<forall>q\<in>set rs. req_now q - now < 60"
  shows "\<exists>t1 tn.
      after (RequestConfirmation now user summary r a pf t) = t1
    \<and> (raised (RequestConfirmation now user summary r a pf t)
         \<longleftrightarrow> reply_fn t user (VStr (''Confirm '' @ summary @ ''?'')) = Raises)
    \<and> pending_requests t1 user = Some r
    \<and> map_of (dicts t1 r) ''timestamp'' = Some (VNum now)
    \<and> map_of (dicts t1 r) ''action'' = Some (VAction a)
    \<and> RequestConfirmations user rs t1 =
         (map (\<lambda>k. call_reply user (VStr ''Confirm prior request before submitting another.'')
                 (t1\<lparr>calls := calls t1 @ replicate k
                    (ReplyFn user (VStr ''Confirm prior request before submitting another.''))\<rparr>))
              [0..<length rs], tn)
    \<and> pending_requests tn = pending_requests t1
    \<and> dicts tn = dicts t1
    \<and> calls tn = calls t1 @ replicate (length rs)
         (ReplyFn user (VStr ''Confirm prior request before submitting another.''))"
proof -
  let ?res = "RequestConfirmation now user summary r a pf t"
  let ?t1 = "after ?res"
  let ?m = "VStr ''Confirm prior request before submitting another.''"
  let ?tn = "?t1\<lparr>calls := calls ?t1 @ replicate (length rs) (ReplyFn user ?m)\<rparr>"
  have s1: "?res = store_request now user summary r a pf t"
    by (rule RequestConfirmation_fresh [OF assms(1)])
  have rs1: "raised ?res \<longleftrightarrow> reply_fn t user (VStr (''Confirm '' @ summary @ ''?'')) = Raises"
    by (simp only: s1 raised_store_request)
  have p1: "pending_requests ?t1 user = Some r"
    by (simp add: s1 after_store_request)
  have ts: "map_of (dicts ?t1 r) ''timestamp'' = Some (VNum now)"
    by (simp add: s1 after_store_request stored_fields)
  have ac: "map_of (dicts ?t1 r) ''action'' = Some (VAction a)"
    by (simp add: s1 after_store_request stored_fields)
  have sn: "RequestConfirmations user rs ?t1 =
         (map (\<lambda>k. call_reply user ?m
                 (?t1\<lparr>calls := calls ?t1 @ replicate k (ReplyFn user ?m)\<rparr>))
              [0..<length rs], ?tn)"
    by (rule RequestConfirmations_rejected [OF p1 ts assms(2)])
  have a: "pending_requests ?tn = pending_requests ?t1" by simp
  have b: "dicts ?tn = dicts ?t1" by simp
  have c: "calls ?tn = calls ?t1 @ replicate (length rs) (ReplyFn user ?m)" by simp
  show ?thesis
    by (rule exI [of _ ?t1], rule exI [of _ ?tn])
       (intro conjI refl rs1 p1 ts ac sn a b c)
qed

lemma stored_example: "stored 100 7 None (example_dicts 5) = alice_details"
  by (simp add: stored_def example_dicts_def alice_details_def)

lemma alice_tracker_made:
  "RequestConfirmation 100 ''alice'' ''file issue'' 5 7 None empty_tracker = Inr alice_tracker"
proof -
  have p: "pending_requests empty_tracker ''alice'' = None"
    by (simp add: empty_tracker_def new_tracker_def)
  have r: "reply_fn empty_tracker ''alice'' (VStr (''Confirm '' @ ''file issue'' @ ''?'')) = Returns"
    by (simp add: empty_tracker_def new_tracker_def reply_returns_def)
  show ?thesis
    unfolding RequestConfirmation_fresh [OF p] store_request_eq
    by (simp add: call_reply_cases stored_example empty_tracker_def new_tracker_def
        reply_returns_def alice_tracker_def)
qed

lemma alice_tracker_pending: "pending_requests alice_tracker ''alice'' = Some 5"
  by (simp add: alice_tracker_def)

lemma alice_tracker_dict: "dicts alice_tracker 5 = alice_details"
  by (simp add: alice_tracker_def)

lemma alice_details_fields:
  "map_of (dicts alice_tracker 5) ''timestamp'' = Some (VNum 100)"
  "map_of (dicts alice_tracker 5) ''action'' = Some (VAction 7)"
  "map_of (dicts alice_tracker 5) ''parse'' = Some (VParse (returning default_parse_fn))"
  "map_of (dicts alice_tracker 5) ''action_text'' = Some (VStr ''Filed.'')"
  by (simp_all add: alice_tracker_dict alice_details_def)

lemma alice_text: "map_of alice_details ''action_text'' = Some (VStr ''Filed.'')"
  by (simp add: alice_details_def)

lemma alice_says_yes: "returning default_parse_fn ''Yes'' = Some True"
  by (simp add: returning_def default_parse_fn_examples)

lemma alice_says_no: "returning default_parse_fn ''no'' = Some False"
  by (simp add: returning_def default_parse_fn_examples)

text \<open>
  The hypotheses of C1 hold for an empty tracker, a first request of alice at time 100 and
  two further ones at times 110 and 159, the second of them with the very dictionary of
  the first request.
\<close>

theorem one_pending_request_C1_witness:
  "pending_requests empty_tracker ''alice'' = None
   \<and> map req_now alice_requests = [110, 159]
   \<and> (110::real) - 100 < 60 \<and> (159::real) - 100 < 60
   \<and> (\<exists>t1 tn.
        after (RequestConfirmation 100 ''alice'' ''first'' 5 7 None empty_tracker) = t1
      \<and> pending_requests t1 ''alice'' = Some 5
      \<and> map_of (dicts t1 5) ''timestamp'' = Some (VNum 100)
      \<and> map_of (dicts t1 5) ''action'' = Some (VAction 7)
      \<and> snd (RequestConfirmations ''alice'' alice_requests t1) = tn
      \<and> pending_requests tn = pending_requests t1
      \<and> dicts tn = dicts t1
      \<and> calls tn = calls t1 @ replicate (length alice_requests)
           (ReplyFn ''alice'' (VStr ''Confirm prior request before submitting another.'')))"
proof -
  have h1: "pending_requests empty_tracker ''alice'' = None"
    by (simp add: empty_tracker_def new_tracker_def)
  have h2: "\<forall>q\<in>set alice_requests. req_now q - 100 < 60"
    by (simp add: alice_requests_def)
  have m: "map req_now alice_requests = [110, 159]" by (simp add: alice_requests_def)
  have l1: "(110::real) - 100 < 60" and l2: "(159::real) - 100 < 60" by simp_all
  from one_pending_request_C1 [OF h1 h2, where summary = "''first''" and r = 5
      and a = 7 and pf = None]
  obtain t1 tn where
    a: "after (RequestConfirmation 100 ''alice'' ''first'' 5 7 None empty_tracker) = t1"
    and b: "pending_requests t1 ''alice'' = Some 5"
    and c: "map_of (dicts t1 5) ''timestamp'' = Some (VNum 100)"
    and d: "map_of (dicts t1 5) ''action'' = Some (VAction 7)"
    and e: "RequestConfirmations ''alice'' alice_requests t1 =
         (map (\<lambda>k. call_reply ''alice''
                 (VStr ''Confirm prior request before submitting another.'')
                 (t1\<lparr>calls := calls t1 @ replicate k
                    (ReplyFn ''alice''
                       (VStr ''Confirm prior request before submitting another.''))\<rparr>))
              [0..<length alice_requests], tn)"
    and f: "pending_requests tn = pending_requests t1"
    and g: "dicts tn = dicts t1"
    and h: "calls tn = calls t1 @ replicate (length alice_requests)
           (ReplyFn ''alice'' (VStr ''Confirm prior request before submitting another.''))"
    by (elim exE conjE)
  have e': "snd (RequestConfirmations ''alice'' alice_requests t1) = tn"
    by (simp only: e snd_conv)
  have ex: "\<exists>t1 tn.
        after (RequestConfirmation 100 ''alice'' ''first'' 5 7 None empty_tracker) = t1
      \<and> pending_requests t1 ''alice'' = Some 5
      \<and> map_of (dicts t1 5) ''timestamp'' = Some (VNum 100)
      \<and> map_of (dicts t1 5) ''action'' = Some (VAction 7)
      \<and> snd (RequestConfirmations ''alice'' alice_requests t1) = tn
      \<and> pending_requests tn = pending_requests t1
      \<and> dicts tn = dicts t1
      \<and> calls tn = calls t1 @ replicate (length alice_requests)
           (ReplyFn ''alice'' (VStr ''Confirm prior request before submitting another.''))"
    by (rule exI [of _ t1], rule exI [of _ tn]) (intro conjI a b c d e' f g h)
  show ?thesis by (intro conjI h1 m l1 l2 ex)
qed

text \<open>
  C10. A call of \<open>RequestConfirmation\<close> for a user whose pending request is younger than
  60 seconds is nothing but a call of \<open>_reply_fn\<close>: the map of pending requests and every
  dictionary (timestamp, action, parse and all) are the same afterwards. So a later
  confirmation is still judged against the original timestamp: when fewer than 60 seconds
  have passed since then it sends the acknowledgement and, once that has returned, calls
  the stored action; otherwise it answers ``You took too long to confirm, try again.''.
  It raises only when one of these callbacks does.
\<close>

theorem duplicate_leaves_request_C10:
  assumes "pending_requests t user = Some r"
    and "map_of (dicts t r) ''timestamp'' = Some (VNum ts)"
    and "map_of (dicts t r) ''action'' = Some (VAction a)"
    and "map_of (dicts t r) ''parse'' = Some (VParse p)"
    and "now - ts < 60"
  shows "\<exists>t'. after (RequestConfirmation now user summary r' a' pf t) = t'
    \<and> RequestConfirmation now user summary r' a' pf t =
        call_reply user (VStr ''Confirm prior request before submitting another.'') t
    \<and> pending_requests t' = pending_requests t
    \<and> dicts t' = dicts t
    \<and> reply_fn t' = reply_fn t
    \<and> pending_requests t' user = Some r
    \<and> calls t' = calls t @
         [ReplyFn user (VStr ''Confirm prior request before submitting another.'')]
    \<and> (\<forall>acts now' msg. p msg = Some True \<longrightarrow>
          calls (after (ResolveRequest acts now' user msg t')) = calls t' @
            (if now' - ts < 60
             then ReplyFn user (case map_of (dicts t r) ''action_text'' of
                                  None \<Rightarrow> VStr ''Confirmation accepted.'' | Some v \<Rightarrow> v)
                  # (case reply_fn t user (case map_of (dicts t r) ''action_text'' of
                                  None \<Rightarrow> VStr ''Confirmation accepted.'' | Some v \<Rightarrow> v) of
                       Returns \<Rightarrow> [ActionFn a user (dicts t r)]
                     | Raises \<Rightarrow> [])
             else [ReplyFn user (VStr ''You took too long to confirm, try again.'')])
        \<and> (raised (ResolveRequest acts now' user msg t') \<longleftrightarrow>
            (if now' - ts < 60
             then reply_fn t user (case map_of (dicts t r) ''action_text'' of
                                  None \<Rightarrow> VStr ''Confirmation accepted.'' | Some v \<Rightarrow> v)
                    = Raises
                  \<or> acts a user (dicts t r) = Raises
             else reply_fn t user (VStr ''You took too long to confirm, try again.'')
                    = Raises)))"
proof -
  let ?m = "VStr ''Confirm prior request before submitting another.''"
  let ?t' = "t\<lparr>calls := calls t @ [ReplyFn user ?m]\<rparr>"
  let ?ack = "case map_of (dicts t r) ''action_text'' of
                None \<Rightarrow> VStr ''Confirmation accepted.'' | Some v \<Rightarrow> v"
  have step: "RequestConfirmation now user summary r' a' pf t = call_reply user ?m t"
    by (rule RequestConfirmation_rejected [OF assms(1) assms(2) assms(5)])
  have aft: "after (RequestConfirmation now user summary r' a' pf t) = ?t'"
    by (simp only: step after_call_reply)
  have p': "pending_requests ?t' user = Some r" using assms(1) by simp
  have f1: "map_of (dicts ?t' r) ''parse'' = Some (VParse p)" using assms(4) by simp
  have f2: "map_of (dicts ?t' r) ''timestamp'' = Some (VNum ts)" using assms(2) by simp
  have f3: "map_of (dicts ?t' r) ''action'' = Some (VAction a)" using assms(3) by simp
  have later: "calls (after (ResolveRequest acts now' user msg ?t')) = calls ?t' @
            (if now' - ts < 60
             then ReplyFn user ?ack
                  # (case reply_fn t user ?ack of
                       Returns \<Rightarrow> [ActionFn a user (dicts t r)]
                     | Raises \<Rightarrow> [])
             else [ReplyFn user (VStr ''You took too long to confirm, try again.'')])
        \<and> (raised (ResolveRequest acts now' user msg ?t') \<longleftrightarrow>
            (if now' - ts < 60
             then reply_fn t user ?ack = Raises \<or> acts a user (dicts t r) = Raises
             else reply_fn t user (VStr ''You took too long to confirm, try again.'')
                    = Raises))"
    if pm: "p msg = Some True" for acts now' msg
  proof (cases "now' - ts < 60")
    case True
    show ?thesis
      unfolding ResolveRequest_confirmed [OF p' f1 f2 f3 pm True]
      using True by (auto split: outcome.split)
  next
    case False
    then have ge: "now' - ts \<ge> 60" by simp
    show ?thesis
      unfolding ResolveRequest_expired [OF p' f1 f2 pm ge]
      using False by (auto split: outcome.split)
  qed
  have a1: "pending_requests ?t' = pending_requests t" by simp
  have a2: "dicts ?t' = dicts t" by simp
  have a3: "reply_fn ?t' = reply_fn t" by simp
  have a4: "calls ?t' = calls t @ [ReplyFn user ?m]" by simp
  have a5: "\<forall>acts now' msg. p msg = Some True \<longrightarrow>
          calls (after (ResolveRequest acts now' user msg ?t')) = calls ?t' @
            (if now' - ts < 60
             then ReplyFn user ?ack
                  # (case reply_fn t user ?ack of
                       Returns \<Rightarrow> [ActionFn a user (dicts t r)]
                     | Raises \<Rightarrow> [])
             else [ReplyFn user (VStr ''You took too long to confirm, try again.'')])
        \<and> (raised (ResolveRequest acts now' user msg ?t') \<longleftrightarrow>
            (if now' - ts < 60
             then reply_fn t user ?ack = Raises \<or> acts a user (dicts t r) = Raises
             else reply_fn t user (VStr ''You took too long to confirm, try again.'')
                    = Raises))"
    using later by blast
  show ?thesis
    by (rule exI [of _ ?t']) (intro conjI aft step a1 a2 a3 p' a4 a5)
qed

text \<open>
  The hypotheses of C10 hold for alice's request stored at time 100 and a duplicate at
  time 130; a confirmation at time 170 is then too late, though it comes 40 seconds after
  the duplicate.
\<close>

theorem duplicate_leaves_request_C10_witness:
  "pending_requests alice_tracker ''alice'' = Some 5
   \<and> map_of (dicts alice_tracker 5) ''timestamp'' = Some (VNum 100)
   \<and> map_of (dicts alice_tracker 5) ''action'' = Some (VAction 7)
   \<and> map_of (dicts alice_tracker 5) ''parse'' = Some (VParse (returning default_parse_fn))
   \<and> (130::real) - 100 < 60
   \<and> returning default_parse_fn ''Yes'' = Some True
   \<and> (\<exists>t'. after (RequestConfirmation 130 ''alice'' ''again'' 5 8 None alice_tracker) = t'
        \<and> pending_requests t' = pending_requests alice_tracker
        \<and> dicts t' = dicts alice_tracker
        \<and> calls (after (ResolveRequest actions_return 170 ''alice'' ''Yes'' t')) =
              calls t' @ [ReplyFn ''alice'' (VStr ''You took too long to confirm, try again.'')])"
proof -
  have h5: "(130::real) - 100 < 60" by simp
  from duplicate_leaves_request_C10 [OF alice_tracker_pending alice_details_fields(1)
      alice_details_fields(2) alice_details_fields(3) h5,
      where summary = "''again''" and r' = 5 and a' = 8 and pf = None]
  obtain t' where
    a: "after (RequestConfirmation 130 ''alice'' ''again'' 5 8 None alice_tracker) = t'"
    and b: "pending_requests t' = pending_requests alice_tracker"
    and c: "dicts t' = dicts alice_tracker"
    and e: "\<forall>acts now' msg. returning default_parse_fn msg = Some True \<longrightarrow>
          calls (after (ResolveRequest acts now' ''alice'' msg t')) = calls t' @
            (if now' - 100 < 60
             then ReplyFn ''alice'' (case map_of (dicts alice_tracker 5) ''action_text'' of
                                  None \<Rightarrow> VStr ''Confirmation accepted.'' | Some v \<Rightarrow> v)
                  # (case reply_fn alice_tracker ''alice''
                            (case map_of (dicts alice_tracker 5) ''action_text'' of
                                  None \<Rightarrow> VStr ''Confirmation accepted.'' | Some v \<Rightarrow> v) of
                       Returns \<Rightarrow> [ActionFn 7 ''alice'' (dicts alice_tracker 5)]
                     | Raises \<Rightarrow> [])
             else [ReplyFn ''alice'' (VStr ''You took too long to confirm, try again.'')])
        \<and> (raised (ResolveRequest acts now' ''alice'' msg t') \<longleftrightarrow>
            (if now' - 100 < 60
             then reply_fn alice_tracker ''alice''
                    (case map_of (dicts alice_tracker 5) ''action_text'' of
                                  None \<Rightarrow> VStr ''Confirmation accepted.'' | Some v \<Rightarrow> v)
                    = Raises
                  \<or> acts 7 ''alice'' (dicts alice_tracker 5) = Raises
             else reply_fn alice_tracker ''alice''
                    (VStr ''You took too long to confirm, try again.'') = Raises))"
    by (elim exE conjE)
  from e [THEN spec, THEN spec, THEN spec, THEN mp, OF alice_says_yes,
      of actions_return 170, THEN conjunct1]
  have f: "calls (after (ResolveRequest actions_return 170 ''alice'' ''Yes'' t')) =
              calls t' @ [ReplyFn ''alice'' (VStr ''You took too long to confirm, try again.'')]"
    by simp
  have ex: "\<exists>t'. after (RequestConfirmation 130 ''alice'' ''again'' 5 8 None alice_tracker) = t'
        \<and> pending_requests t' = pending_requests alice_tracker
        \<and> dicts t' = dicts alice_tracker
        \<and> calls (after (ResolveRequest actions_return 170 ''alice'' ''Yes'' t')) =
              calls t' @ [ReplyFn ''alice'' (VStr ''You took too long to confirm, try again.'')]"
    by (rule exI [of _ t']) (intro conjI a b c f)
  show ?thesis
    by (intro conjI alice_tracker_pending alice_details_fields(1) alice_details_fields(2)
        alice_details_fields(3) h5 alice_says_yes ex)
qed

text \<open>
  C3. For a pending request and a reply on which the stored parse function returns true.
  When fewer than 60 seconds have passed since the timestamp, \<open>ResolveRequest\<close> calls
  \<open>_reply_fn\<close> with the value of \<open>action_text\<close> if the dictionary has this key and
  with ``Confirmation accepted.'' otherwise; when that call has returned it calls the
  stored action once, with the user and the dictionary, and when the action has returned
  it removes the entry. When 60 seconds or more have passed it calls \<open>_reply_fn\<close> with
  ``You took too long to confirm, try again.'', calls no action, and removes the entry.
  A callback that raises ends the call there, with the entry still in place.
\<close>

theorem timeout_boundary_C3:
  assumes "pending_requests t user = Some r"
    and "map_of (dicts t r) ''timestamp'' = Some (VNum ts)"
    and "map_of (dicts t r) ''action'' = Some (VAction a)"
    and "map_of (dicts t r) ''parse'' = Some (VParse p)"
    and "p msg = Some True"
  shows "(now - ts < 60 \<longrightarrow>
            ResolveRequest acts now user msg t =
              (case reply_fn t user
                      (case map_of (dicts t r) ''action_text'' of
                         None \<Rightarrow> VStr ''Confirmation accepted.'' | Some v \<Rightarrow> v) of
                 Raises \<Rightarrow>
                   Inl (CallbackError,
                        t\<lparr>calls := calls t @
                            [ReplyFn user (case map_of (dicts t r) ''action_text'' of
                                             None \<Rightarrow> VStr ''Confirmation accepted.''
                                           | Some v \<Rightarrow> v)]\<rparr>)
               | Returns \<Rightarrow>
                   (case acts a user (dicts t r) of
                      Returns \<Rightarrow>
                        Inr (t\<lparr>pending_requests := (pending_requests t)(user := None),
                               calls := calls t @
                                 [ReplyFn user (case map_of (dicts t r) ''action_text'' of
                                                  None \<Rightarrow> VStr ''Confirmation accepted.''
                                                | Some v \<Rightarrow> v),
                                  ActionFn a user (dicts t r)]\<rparr>)
                    | Raises \<Rightarrow>
                        Inl (CallbackError,
                             t\<lparr>calls := calls t @
                                 [ReplyFn user (case map_of (dicts t r) ''action_text'' of
                                                  None \<Rightarrow> VStr ''Confirmation accepted.''
                                                | Some v \<Rightarrow> v),
                                  ActionFn a user (dicts t r)]\<rparr>))))
       \<and> (now - ts \<ge> 60 \<longrightarrow>
            ResolveRequest acts now user msg t =
              (case reply_fn t user (VStr ''You took too long to confirm, try again.'') of
                 Returns \<Rightarrow>
                   Inr (t\<lparr>pending_requests := (pending_requests t)(user := None),
                          calls := calls t @
                            [ReplyFn user
                               (VStr ''You took too long to confirm, try again.'')]\<rparr>)
               | Raises \<Rightarrow>
                   Inl (CallbackError,
                        t\<lparr>calls := calls t @
                            [ReplyFn user
                               (VStr ''You took too long to confirm, try again.'')]\<rparr>)))"
proof (intro conjI impI)
  assume lt: "now - ts < 60"
  show "ResolveRequest acts now user msg t =
              (case reply_fn t user
                      (case map_of (dicts t r) ''action_text'' of
                         None \<Rightarrow> VStr ''Confirmation accepted.'' | Some v \<Rightarrow> v) of
                 Raises \<Rightarrow>
                   Inl (CallbackError,
                        t\<lparr>calls := calls t @
                            [ReplyFn user (case map_of (dicts t r) ''action_text'' of
                                             None \<Rightarrow> VStr ''Confirmation accepted.''
                                           | Some v \<Rightarrow> v)]\<rparr>)
               | Returns \<Rightarrow>
                   (case acts a user (dicts t r) of
                      Returns \<Rightarrow>
                        Inr (t\<lparr>pending_requests := (pending_requests t)(user := None),
                               calls := calls t @
                                 [ReplyFn user (case map_of (dicts t r) ''action_text'' of
                                                  None \<Rightarrow> VStr ''Confirmation accepted.''
                                                | Some v \<Rightarrow> v),
                                  ActionFn a user (dicts t r)]\<rparr>)
                    | Raises \<Rightarrow>
                        Inl (CallbackError,
                             t\<lparr>calls := calls t @
                                 [ReplyFn user (case map_of (dicts t r) ''action_text'' of
                                                  None \<Rightarrow> VStr ''Confirmation accepted.''
                                                | Some v \<Rightarrow> v),
                                  ActionFn a user (dicts t r)]\<rparr>)))"
    by (rule ResolveRequest_confirmed [OF assms(1) assms(4) assms(2) assms(3) assms(5) lt])
next
  assume ge: "now - ts \<ge> 60"
  show "ResolveRequest acts now user msg t =
              (case reply_fn t user (VStr ''You took too long to confirm, try again.'') of
                 Returns \<Rightarrow>
                   Inr (t\<lparr>pending_requests := (pending_requests t)(user := None),
                          calls := calls t @
                            [ReplyFn user
                               (VStr ''You took too long to confirm, try again.'')]\<rparr>)
               | Raises \<Rightarrow>
                   Inl (CallbackError,
                        t\<lparr>calls := calls t @
                            [ReplyFn user
                               (VStr ''You took too long to confirm, try again.'')]\<rparr>))"
    by (rule ResolveRequest_expired [OF assms(1) assms(4) assms(2) assms(5) ge])
qed

text \<open>
  The boundary of C3 on alice's request stored at time 100: confirmed at 159, with an
  action that returns and with one that raises, and too late at 160.
\<close>

theorem timeout_boundary_C3_witness:
  "pending_requests alice_tracker ''alice'' = Some 5
   \<and> map_of (dicts alice_tracker 5) ''timestamp'' = Some (VNum 100)
   \<and> map_of (dicts alice_tracker 5) ''action'' = Some (VAction 7)
   \<and> map_of (dicts alice_tracker 5) ''parse'' = Some (VParse (returning default_parse_fn))
   \<and> returning default_parse_fn ''Yes'' = Some True
   \<and> (159::real) - 100 < 60 \<and> (160::real) - 100 \<ge> 60
   \<and> ResolveRequest actions_return 159 ''alice'' ''Yes'' alice_tracker =
        Inr (alice_tracker\<lparr>pending_requests := (pending_requests alice_tracker)(''alice'' := None),
               calls := calls alice_tracker @
                 [ReplyFn ''alice'' (VStr ''Filed.''), ActionFn 7 ''alice'' alice_details]\<rparr>)
   \<and> ResolveRequest actions_raise 159 ''alice'' ''Yes'' alice_tracker =
        Inl (CallbackError,
             alice_tracker\<lparr>calls := calls alice_tracker @
                 [ReplyFn ''alice'' (VStr ''Filed.''), ActionFn 7 ''alice'' alice_details]\<rparr>)
   \<and> ResolveRequest actions_return 160 ''alice'' ''Yes'' alice_tracker =
        Inr (alice_tracker\<lparr>pending_requests := (pending_requests alice_tracker)(''alice'' := None),
               calls := calls alice_tracker @
                 [ReplyFn ''alice'' (VStr ''You took too long to confirm, try again.'')]\<rparr>)"
proof -
  have lt: "(159::real) - 100 < 60" and ge: "(160::real) - 100 \<ge> 60" by simp_all
  note th = timeout_boundary_C3 [OF alice_tracker_pending alice_details_fields(1)
      alice_details_fields(2) alice_details_fields(3) alice_says_yes]
  have rf: "reply_fn alice_tracker = reply_returns" by (simp add: alice_tracker_def)
  have r1: "ResolveRequest actions_return 159 ''alice'' ''Yes'' alice_tracker =
        Inr (alice_tracker\<lparr>pending_requests := (pending_requests alice_tracker)(''alice'' := None),
               calls := calls alice_tracker @
                 [ReplyFn ''alice'' (VStr ''Filed.''), ActionFn 7 ''alice'' alice_details]\<rparr>)"
    using th [of 159 actions_return, THEN conjunct1, THEN mp, OF lt]
    by (simp add: alice_text alice_tracker_dict rf reply_returns_def actions_return_def)
  have r2: "ResolveRequest actions_raise 159 ''alice'' ''Yes'' alice_tracker =
        Inl (CallbackError,
             alice_tracker\<lparr>calls := calls alice_tracker @
                 [ReplyFn ''alice'' (VStr ''Filed.''), ActionFn 7 ''alice'' alice_details]\<rparr>)"
    using th [of 159 actions_raise, THEN conjunct1, THEN mp, OF lt]
    by (simp add: alice_text alice_tracker_dict rf reply_returns_def actions_raise_def)
  have r3: "ResolveRequest actions_return 160 ''alice'' ''Yes'' alice_tracker =
        Inr (alice_tracker\<lparr>pending_requests := (pending_requests alice_tracker)(''alice'' := None),
               calls := calls alice_tracker @
                 [ReplyFn ''alice'' (VStr ''You took too long to confirm, try again.'')]\<rparr>)"
    using th [of 160 actions_return, THEN conjunct2, THEN mp, OF ge]
    by (simp add: rf reply_returns_def)
  show ?thesis
    by (intro conjI alice_tracker_pending alice_details_fields(1) alice_details_fields(2)
        alice_details_fields(3) alice_says_yes lt ge r1 r2 r3)
qed

text \<open>
  C9. A request made without a parse function is stored with the default one, which never
  raises and is true exactly on the texts whose first character is y or Y; so it is true
  on Yes, y and YEAH and false on no and on the empty text.
\<close>

theorem default_parse_C9:
  assumes "pending_requests t user = None"
  shows "(\<exists>t'. after (RequestConfirmation now user summary r a None t) = t'
            \<and> pending_requests t' user = Some r
            \<and> map_of (dicts t' r) ''parse'' = Some (VParse (returning default_parse_fn)))
       \<and> (\<forall>x. returning default_parse_fn x = Some (default_parse_fn x))
       \<and> (\<forall>x. default_parse_fn x \<longleftrightarrow> (\<exists>cs. x = CHR ''y'' # cs \<or> x = CHR ''Y'' # cs))
       \<and> default_parse_fn ''Yes'' \<and> default_parse_fn ''y'' \<and> default_parse_fn ''YEAH''
       \<and> \<not> default_parse_fn ''no'' \<and> \<not> default_parse_fn []"
proof -
  let ?t' = "after (RequestConfirmation now user summary r a None t)"
  have s: "RequestConfirmation now user summary r a None t =
      store_request now user summary r a None t"
    by (rule RequestConfirmation_fresh [OF assms])
  have p: "pending_requests ?t' user = Some r"
    by (simp add: s after_store_request)
  have f: "map_of (dicts ?t' r) ''parse'' = Some (VParse (returning default_parse_fn))"
    by (simp add: s after_store_request stored_fields)
  have st: "\<exists>t'. after (RequestConfirmation now user summary r a None t) = t'
            \<and> pending_requests t' user = Some r
            \<and> map_of (dicts t' r) ''parse'' = Some (VParse (returning default_parse_fn))"
    by (rule exI [of _ ?t']) (intro conjI refl p f)
  have rt: "\<forall>x. returning default_parse_fn x = Some (default_parse_fn x)"
    by (simp add: returning_def)
  have iff: "\<forall>x. default_parse_fn x \<longleftrightarrow> (\<exists>cs. x = CHR ''y'' # cs \<or> x = CHR ''Y'' # cs)"
    using default_parse_fn_iff by blast
  show ?thesis
    by (intro conjI st rt iff default_parse_fn_examples)
qed

text \<open>
  The hypothesis of C9 holds for an empty tracker.
\<close>

theorem default_parse_C9_witness:
  "pending_requests empty_tracker ''bob'' = None
   \<and> (\<exists>t'. after (RequestConfirmation 5 ''bob'' ''deploy'' 6 3 None empty_tracker) = t'
            \<and> pending_requests t' ''bob'' = Some 6
            \<and> map_of (dicts t' 6) ''parse'' = Some (VParse (returning default_parse_fn)))
   \<and> default_parse_fn ''Yes'' \<and> \<not> default_parse_fn ''no''"
proof -
  have h: "pending_requests empty_tracker ''bob'' = None"
    by (simp add: empty_tracker_def new_tracker_def)
  note th = default_parse_C9 [OF h, of 5 "''deploy''" 6 3]
  show ?thesis
    by (intro conjI h th [THEN conjunct1] default_parse_fn_examples(1)
        default_parse_fn_examples(4))
qed

lemma ResolveRequest_entry:
  assumes "pending_requests t user = Some r"
    and "map_of (dicts t r) ''timestamp'' = Some (VNum ts)"
    and "map_of (dicts t r) ''action'' = Some (VAction a)"
    and "map_of (dicts t r) ''parse'' = Some (VParse p)"
  shows "pending_requests (after (ResolveRequest acts now user msg t)) user =
           (if raised (ResolveRequest acts now user msg t) then Some r else None)"
proof (cases "p msg")
  case None
  show ?thesis
    unfolding ResolveRequest_parse_raises [OF assms(1) assms(4) None]
    using assms(1) by simp
next
  case (Some c)
  show ?thesis
  proof (cases c)
    case False
    with Some have pm: "p msg = Some False" by simp
    show ?thesis
      unfolding ResolveRequest_denied [OF assms(1) assms(4) pm]
      using assms(1) by (simp split: outcome.split)
  next
    case True
    with Some have pm: "p msg = Some True" by simp
    show ?thesis
    proof (cases "now - ts < 60")
      case lt: True
      show ?thesis
        unfolding ResolveRequest_confirmed [OF assms(1) assms(4) assms(2) assms(3) pm lt]
        using assms(1) by (simp split: outcome.split)
    next
      case False
      then have ge: "now - ts \<ge> 60" by simp
      show ?thesis
        unfolding ResolveRequest_expired [OF assms(1) assms(4) assms(2) pm ge]
        using assms(1) by (simp split: outcome.split)
    qed
  qed
qed

text \<open>
  C2 fails on the code. Alice's request is stored at time 100; she confirms at time 110,
  and the action raises. The exception leaves \<open>ResolveRequest\<close> before its \<open>del\<close>: the
  entry is still there, and her next request, at time 111, is rejected.
\<close>

theorem raising_action_keeps_entry_C2:
  "RequestConfirmation 100 ''alice'' ''file issue'' 5 7 None empty_tracker = Inr alice_tracker
   \<and> returning default_parse_fn ''Yes'' = Some True
   \<and> ResolveRequest actions_raise 110 ''alice'' ''Yes'' alice_tracker =
        Inl (CallbackError,
             alice_tracker\<lparr>calls := calls alice_tracker @
                 [ReplyFn ''alice'' (VStr ''Filed.''), ActionFn 7 ''alice'' alice_details]\<rparr>)
   \<and> HasPendingRequest
        (after (ResolveRequest actions_raise 110 ''alice'' ''Yes'' alice_tracker)) ''alice''
   \<and> RequestConfirmation 111 ''alice'' ''again'' 6 8 None
        (after (ResolveRequest actions_raise 110 ''alice'' ''Yes'' alice_tracker)) =
        Inr (alice_tracker\<lparr>calls := calls alice_tracker @
                 [ReplyFn ''alice'' (VStr ''Filed.''), ActionFn 7 ''alice'' alice_details,
                  ReplyFn ''alice''
                    (VStr ''Confirm prior request before submitting another.'')]\<rparr>)"
proof -
  have lt: "(110::real) - 100 < 60" by simp
  have rf: "reply_fn alice_tracker = reply_returns" by (simp add: alice_tracker_def)
  let ?t1 = "alice_tracker\<lparr>calls := calls alice_tracker @
                 [ReplyFn ''alice'' (VStr ''Filed.''), ActionFn 7 ''alice'' alice_details]\<rparr>"
  have r: "ResolveRequest actions_raise 110 ''alice'' ''Yes'' alice_tracker =
        Inl (CallbackError, ?t1)"
    unfolding ResolveRequest_confirmed [OF alice_tracker_pending alice_details_fields(3)
        alice_details_fields(1) alice_details_fields(2) alice_says_yes lt]
    by (simp add: alice_text alice_tracker_dict rf reply_returns_def actions_raise_def)
  have aft: "after (ResolveRequest actions_raise 110 ''alice'' ''Yes'' alice_tracker) = ?t1"
    by (simp only: r after.simps)
  have hp: "HasPendingRequest
        (after (ResolveRequest actions_raise 110 ''alice'' ''Yes'' alice_tracker)) ''alice''"
    by (simp add: aft HasPendingRequest_def alice_tracker_pending)
  have p1: "pending_requests ?t1 ''alice'' = Some 5" by (simp add: alice_tracker_pending)
  have d1: "map_of (dicts ?t1 5) ''timestamp'' = Some (VNum 100)"
    using alice_details_fields(1) by simp
  have lt2: "(111::real) - 100 < 60" by simp
  have again: "RequestConfirmation 111 ''alice'' ''again'' 6 8 None
        (after (ResolveRequest actions_raise 110 ''alice'' ''Yes'' alice_tracker)) =
        Inr (alice_tracker\<lparr>calls := calls alice_tracker @
                 [ReplyFn ''alice'' (VStr ''Filed.''), ActionFn 7 ''alice'' alice_details,
                  ReplyFn ''alice''
                    (VStr ''Confirm prior request before submitting another.'')]\<rparr>)"
    unfolding aft RequestConfirmation_rejected [OF p1 d1 lt2]
    by (simp add: call_reply_cases rf reply_returns_def)
  show ?thesis
    by (intro conjI alice_tracker_made alice_says_yes r hp again)
qed

lemma entry_ok_stored: "entry_ok (stored now a pf d)"
  unfolding entry_ok_def using stored_fields [of now a pf d] by blast

lemma tracker_ok_new: "tracker_ok (new_tracker ds rf)"
  by (simp add: tracker_ok_def new_tracker_def)

lemma tracker_ok_calls: "tracker_ok (t\<lparr>calls := c\<rparr>) = tracker_ok t"
  by (simp add: tracker_ok_def)

lemma tracker_ok_remove:
  "tracker_ok t \<Longrightarrow> tracker_ok (t\<lparr>pending_requests := (pending_requests t)(user := None)\<rparr>)"
  by (simp add: tracker_ok_def)

lemma tracker_ok_store:
  assumes "tracker_ok t"
  shows "tracker_ok (after (store_request now user summary r a pf t))"
  unfolding tracker_ok_def after_store_request
proof (intro allI impI)
  fix u r'
  let ?t' = "t\<lparr>dicts := (dicts t)(r := stored now a pf (dicts t r)),
       pending_requests := (pending_requests t)(user \<mapsto> r),
       calls := calls t @ [ReplyFn user (VStr (''Confirm '' @ summary @ ''?''))]\<rparr>"
  assume s: "pending_requests ?t' u = Some r'"
  show "entry_ok (dicts ?t' r')"
  proof (cases "r' = r")
    case True
    then show ?thesis by (simp add: entry_ok_stored)
  next
    case False
    with s have "pending_requests t u = Some r'" by (simp split: if_splits)
    with assms have "entry_ok (dicts t r')" by (simp add: tracker_ok_def)
    with False show ?thesis by simp
  qed
qed

lemma RequestConfirmation_ok:
  assumes "tracker_ok t"
  shows "tracker_ok (after (RequestConfirmation now user summary r a pf t))
       \<and> (raised (RequestConfirmation now user summary r a pf t) \<longrightarrow>
            (\<exists>t'. RequestConfirmation now user summary r a pf t = Inl (CallbackError, t')))"
proof (cases "pending_requests t user")
  case None
  show ?thesis
    unfolding RequestConfirmation_fresh [OF None]
    using tracker_ok_store [OF assms, where now = now and user = user and summary = summary
        and r = r and a = a and pf = pf]
    by (simp add: store_request_eq call_reply_cases split: outcome.split)
next
  case (Some r0)
  with assms have "entry_ok (dicts t r0)" by (simp add: tracker_ok_def)
  then obtain ts where ts: "map_of (dicts t r0) ''timestamp'' = Some (VNum ts)"
    unfolding entry_ok_def by blast
  show ?thesis
  proof (cases "now - ts < 60")
    case True
    show ?thesis
      unfolding RequestConfirmation_rejected [OF Some ts True]
      using assms by (simp add: call_reply_cases tracker_ok_calls split: outcome.split)
  next
    case False
    show ?thesis
      unfolding RequestConfirmation_expired [OF Some ts False]
      using tracker_ok_store [OF tracker_ok_remove [OF assms, of user], where now = now
        and user = user and summary = summary and r = r and a = a and pf = pf]
      by (simp add: store_request_eq call_reply_cases split: outcome.split)
  qed
qed

section \<open>Properties of Reply, OutputUtil and ReloadData\<close>

lemma first_segment:
  "(case str_split sep s of [] \<Rightarrow> [] | x # _ \<Rightarrow> x) = takeWhile (\<lambda>c. c \<noteq> sep) s"
proof -
  have "str_split sep s = takeWhile (\<lambda>c. c \<noteq> sep) s # tl (str_split sep s)"
    by (rule str_split_head)
  then obtain r where "str_split sep s = takeWhile (\<lambda>c. c \<noteq> sep) s # r" by blast
  then show ?thesis by simp
qed

lemma normalize_channel_TString:
  "normalize_channel (TString s) =
     \<lparr>id' = takeWhile (\<lambda>c. c \<noteq> CHR '':'') s, visibility = PRIVATE, name = s\<rparr>"
  by (simp add: first_segment)

lemma Reply_empty: "\<not> msg_truthy msg \<Longrightarrow> Reply ch msg dflt ll mx u lg lvl = []"
  by (simp add: Reply_def)

lemma Reply_resolved:
  assumes "msg_truthy (Some m)"
    and "resolve_channel ch dflt = Some tgt"
  shows "Reply ch (Some m) dflt ll mx u lg lvl =
     (if lg then [Log lvl (Some m)] else []) @
     (case m of
        MList items \<Rightarrow>
          if ll \<and> visibility (normalize_channel tgt) = PUBLIC \<and> int (length items) > mx
          then
            (if user_truthy u
             then [SendMessage (normalize_channel tgt)
                     (MakeMessage (MText ''It's long so I sent it privately.'')),
                   SendMessage \<lparr>id' = the u, visibility = PRIVATE, name = the u\<rparr>
                     (MakeMessage m)]
             else [SendMessage (normalize_channel tgt)
                     (MakeMessage (MList (py_slice_to mx items @ [MText ''...''])))])
          else [SendMessage (normalize_channel tgt) (MakeMessage m)]
      | MText s \<Rightarrow> [SendMessage (normalize_channel tgt) (MakeMessage m)])"
  using assms(1) unfolding Reply_def Let_def assms(2) by simp

lemma MakeMessage_dots: "MakeMessage (MText ''...'') = [''...'']"
  by (simp add: MakeMessage_def)

lemma MakeMessage_truncated:
  "MakeMessage (MList (xs @ [MText ''...''])) = concat (map MakeMessage xs) @ [''...'']"
  by (simp add: MakeMessage_MList MakeMessage_dots)

lemma py_slice_to_map: "py_slice_to n (map f xs) = map f (py_slice_to n xs)"
  by (simp add: py_slice_to_def take_map)

lemma concat_flat:
  "\<forall>l\<in>set ls. CHR 0x0A \<notin> set l \<Longrightarrow> concat (map MakeMessage (map MText ls)) = ls"
  by (induction ls) (simp_all add: MakeMessage_MText str_split_no_sep)

lemma Reply_no_overflow_user:
  assumes "msg_truthy (Some m)"
    and "resolve_channel ch dflt = Some tgt"
    and "\<not> user_truthy u"
  shows "Reply ch (Some m) dflt ll mx u lg lvl =
           (if lg then [Log lvl (Some m)] else []) @
           [SendMessage (normalize_channel tgt)
              (case m of
                 MList items \<Rightarrow>
                   if ll \<and> visibility (normalize_channel tgt) = PUBLIC \<and> mx < int (length items)
                   then concat (map MakeMessage (py_slice_to mx items)) @ [''...'']
                   else MakeMessage m
               | MText s \<Rightarrow> MakeMessage m)]"
  using assms(3)
  by (simp add: Reply_resolved [OF assms(1) assms(2)] MakeMessage_truncated
      split: message.split)

lemma Reply_not_limited:
  assumes "msg_truthy (Some m)"
    and "resolve_channel ch dflt = Some tgt"
    and "\<not> (ll \<and> visibility (normalize_channel tgt) = PUBLIC
            \<and> (\<exists>items. m = MList items \<and> mx < int (length items)))"
  shows "Reply ch (Some m) dflt ll mx u lg lvl =
           (if lg then [Log lvl (Some m)] else []) @
           [SendMessage (normalize_channel tgt) (MakeMessage m)]"
  using assms(3)
  by (auto simp add: Reply_resolved [OF assms(1) assms(2)] split: message.split)

text \<open>
  C4 fails on the code. \<open>Reply\<close> tests \<open>isinstance(msg, list) and len(msg) >
  max_public_lines\<close>: it counts the items of a list before flattening, not the lines that
  are sent. The scenario of the specification (the lines 1, 2, 3, 4 as a list, a public
  channel, a bound of 2) is cut to 1, 2 and ``...''. The same four lines given as one
  string are more lines than the bound, and all four are sent to the public channel. Given
  as a list of three items whose first holds two lines, they are cut after two items, and
  three lines and the marker are sent.
\<close>

theorem truncation_counts_items_C4:
  "Reply (Some (TChannel public_channel)) (Some long_message) None True 2 None False
        logging_INFO
      = [SendMessage public_channel [''1'', ''2'', ''...'']]
   \<and> visibility public_channel = PUBLIC
   \<and> MakeMessage (MText ''1\<newline>2\<newline>3\<newline>4'') = [''1'', ''2'', ''3'', ''4'']
   \<and> Reply (Some (TChannel public_channel)) (Some (MText ''1\<newline>2\<newline>3\<newline>4'')) None True 2
        None False logging_INFO
      = [SendMessage public_channel [''1'', ''2'', ''3'', ''4'']]
   \<and> MakeMessage (MList [MText ''1\<newline>2'', MText ''3'', MText ''4''])
      = [''1'', ''2'', ''3'', ''4'']
   \<and> Reply (Some (TChannel public_channel))
        (Some (MList [MText ''1\<newline>2'', MText ''3'', MText ''4''])) None True 2
        None False logging_INFO
      = [SendMessage public_channel [''1'', ''2'', ''3'', ''...'']]"
  by (simp add: Reply_def resolve_channel_def MakeMessage_def public_channel_def
      long_message_def py_slice_to_def)

text \<open>
  C6, as the code has it. With an empty or absent message, \<open>Reply\<close> and \<open>Output\<close>
  send nothing and log nothing, whatever the destination and the log flag are;
  \<open>LogAndOutput\<close> sends nothing either, but its one log call, made before \<open>Output\<close>,
  is still made.
\<close>

theorem empty_message_C6:
  assumes "\<not> msg_truthy msg"
  shows "Reply ch msg dflt ll mx u lg lvl = []
       \<and> Output ch msg = []
       \<and> LogAndOutput lvl ch msg = [Log lvl msg]"
  using assms by (simp add: LogAndOutput_def Output_def Reply_empty)

text \<open>
  The hypothesis of C6 holds for the empty list.
\<close>

theorem empty_message_C6_witness:
  "\<not> msg_truthy (Some (MList []))
   \<and> Reply (Some (TChannel public_channel)) (Some (MList [])) None True 6 (Some ''alice'') True
        logging_INFO = []
   \<and> LogAndOutput logging_INFO (Some (TChannel public_channel)) (Some (MList []))
        = [Log logging_INFO (Some (MList []))]"
proof -
  have h: "\<not> msg_truthy (Some (MList []))" by simp
  note th = empty_message_C6 [OF h]
  show ?thesis
    by (intro conjI h th [THEN conjunct1] th [THEN conjunct2, THEN conjunct2])
qed

text \<open>
  C6 as stated fails for \<open>LogAndOutput\<close>: with an absent message it logs.
\<close>

theorem empty_message_C6_counterexample:
  "\<not> msg_truthy None
   \<and> LogAndOutput logging_INFO (Some (TChannel public_channel)) None = [Log logging_INFO None]
   \<and> LogAndOutput logging_INFO (Some (TChannel public_channel)) None \<noteq> []"
  by (simp add: LogAndOutput_def Output_def Reply_def)

text \<open>
  C7, as the code has it. A destination given as a non-empty string: whatever the other
  arguments are, \<open>Reply\<close> with a non-empty message makes one send, of the whole flattened
  message, to the channel whose id is the part of the string before its first colon, whose
  visibility is PRIVATE and whose name is the whole string (after the log record, when
  the log flag is set); with an empty message it does nothing. The empty string is no
  destination: \<open>Reply\<close> does with it what it does with an absent one, and so turns to
  the default channel.
\<close>

theorem legacy_destination_C7:
  assumes "s \<noteq> []"
  shows "Reply (Some (TString s)) msg dflt ll mx u lg lvl =
           (case msg of
              None \<Rightarrow> []
            | Some m \<Rightarrow>
                if msg_truthy (Some m)
                then (if lg then [Log lvl (Some m)] else []) @
                     [SendMessage
                        \<lparr>id' = takeWhile (\<lambda>c. c \<noteq> CHR '':'') s, visibility = PRIVATE,
                         name = s\<rparr>
                        (MakeMessage m)]
                else [])
       \<and> Reply (Some (TString [])) msg dflt ll mx u lg lvl = Reply None msg dflt ll mx u lg lvl"
proof (intro conjI)
  have t: "resolve_channel (Some (TString s)) dflt = Some (TString s)"
    using assms by (simp add: resolve_channel_def)
  show "Reply (Some (TString s)) msg dflt ll mx u lg lvl =
           (case msg of
              None \<Rightarrow> []
            | Some m \<Rightarrow>
                if msg_truthy (Some m)
                then (if lg then [Log lvl (Some m)] else []) @
                     [SendMessage
                        \<lparr>id' = takeWhile (\<lambda>c. c \<noteq> CHR '':'') s, visibility = PRIVATE,
                         name = s\<rparr>
                        (MakeMessage m)]
                else [])"
  proof (cases msg)
    case None
    then show ?thesis by (simp add: Reply_empty)
  next
    case (Some m)
    show ?thesis
    proof (cases "msg_truthy (Some m)")
      case True
      show ?thesis
        unfolding Some
        using True
        by (simp add: Reply_resolved [OF True t] first_segment split: message.split)
    next
      case False
      then show ?thesis unfolding Some by (simp add: Reply_empty)
    qed
  qed
  show "Reply (Some (TString [])) msg dflt ll mx u lg lvl = Reply None msg dflt ll mx u lg lvl"
    by (simp add: Reply_def resolve_channel_def)
qed

text \<open>
  The hypothesis of C7 holds for the destination alice:work, here with the message hi and
  a public default channel.
\<close>

theorem legacy_destination_C7_witness:
  "''alice:work'' \<noteq> []
   \<and> Reply (Some (TString ''alice:work'')) (Some (MText ''hi'')) (Some public_channel) True 0
        None False logging_INFO
      = [SendMessage \<lparr>id' = ''alice'', visibility = PRIVATE, name = ''alice:work''\<rparr> [''hi'']]"
proof -
  have h1: "''alice:work'' \<noteq> []" by simp
  have r: "Reply (Some (TString ''alice:work'')) (Some (MText ''hi'')) (Some public_channel) True 0
        None False logging_INFO
      = [SendMessage \<lparr>id' = ''alice'', visibility = PRIVATE, name = ''alice:work''\<rparr> [''hi'']]"
    using legacy_destination_C7 [OF h1, of "Some (MText ''hi'')" "Some public_channel" True 0
        None False logging_INFO, THEN conjunct1]
    by (simp add: MakeMessage_def)
  show ?thesis by (intro conjI h1 r)
qed

text \<open>
  C7 as stated fails for the empty string: with a default channel the message goes there,
  to a public channel, and not to a private channel with an empty id.
\<close>

theorem legacy_destination_C7_counterexample:
  "Reply (Some (TString [])) (Some (MText ''hi'')) (Some public_channel) False 6 None False
        logging_INFO
      = [SendMessage public_channel [''hi'']]
   \<and> normalize_channel (TString []) = \<lparr>id' = [], visibility = PRIVATE, name = []\<rparr>
   \<and> public_channel \<noteq> \<lparr>id' = [], visibility = PRIVATE, name = []\<rparr>
   \<and> Reply (Some (TString [])) (Some (MText ''hi'')) (Some public_channel) False 6 None False
        logging_INFO
      \<noteq> [SendMessage \<lparr>id' = [], visibility = PRIVATE, name = []\<rparr> [''hi'']]"
  by (simp add: Reply_def resolve_channel_def MakeMessage_def public_channel_def)

lemma scheduled_append: "scheduled (xs @ ys) = scheduled xs @ scheduled ys"
  by (induction xs rule: scheduled.induct) simp_all

lemma scheduled_reload_attrs:
  "scheduled (concat (map reload_attr attrs)) =
     map fst (filter (\<lambda>x. has_ReloadData (snd x)) attrs)"
  by (induction attrs) (auto simp: scheduled_append)

lemma no_flush_reload_attrs: "FlushCache \<notin> set (concat (map reload_attr attrs))"
  by (induction attrs) auto

text \<open>
  C8. When the runner is not idle, \<open>ReloadData\<close> returns False, hands nothing to the
  runner and does not flush the proxy cache. When the runner is idle it returns True,
  flushes the cache once and first, and hands to the runner, in the order of the
  attributes, the reload of exactly the attributes that have a \<open>ReloadData\<close>.
\<close>

theorem reload_gating_C8:
  "(\<not> runner_IsIdle self \<longrightarrow>
      fst (ReloadData self) = False
    \<and> scheduled (snd (ReloadData self)) = []
    \<and> FlushCache \<notin> set (snd (ReloadData self)))
 \<and> (runner_IsIdle self \<longrightarrow>
      fst (ReloadData self) = True
    \<and> (\<exists>rest. snd (ReloadData self) = FlushCache # rest \<and> FlushCache \<notin> set rest)
    \<and> scheduled (snd (ReloadData self)) =
         map fst (filter (\<lambda>x. has_ReloadData (snd x)) (dict self)))"
proof (intro conjI impI)
  assume "\<not> runner_IsIdle self"
  then show "fst (ReloadData self) = False" "scheduled (snd (ReloadData self)) = []"
    "FlushCache \<notin> set (snd (ReloadData self))"
    by (simp_all add: ReloadData_def)
next
  assume idle: "runner_IsIdle self"
  then show "fst (ReloadData self) = True" by (simp add: ReloadData_def)
  show "\<exists>rest. snd (ReloadData self) = FlushCache # rest \<and> FlushCache \<notin> set rest"
  proof -
    have "snd (ReloadData self) = FlushCache # concat (map reload_attr (dict self))"
      using idle by (simp add: ReloadData_def)
    with no_flush_reload_attrs [of "dict self"] show ?thesis by blast
  qed
  show "scheduled (snd (ReloadData self)) =
         map fst (filter (\<lambda>x. has_ReloadData (snd x)) (dict self))"
    using idle by (simp add: ReloadData_def scheduled_reload_attrs)
qed

text \<open>
  Both cases of C8 on a core with four attributes, two of them with a \<open>ReloadData\<close>.
\<close>

theorem reload_gating_C8_witness:
  "runner_IsIdle example_core
   \<and> fst (ReloadData example_core) = True
   \<and> scheduled (snd (ReloadData example_core)) = [''store'', ''stocks'']
   \<and> \<not> runner_IsIdle (example_core\<lparr>runner_IsIdle := False\<rparr>)
   \<and> fst (ReloadData (example_core\<lparr>runner_IsIdle := False\<rparr>)) = False
   \<and> scheduled (snd (ReloadData (example_core\<lparr>runner_IsIdle := False\<rparr>))) = []
   \<and> FlushCache \<notin> set (snd (ReloadData (example_core\<lparr>runner_IsIdle := False\<rparr>)))"
proof -
  have i: "runner_IsIdle example_core" by (simp add: example_core_def)
  have b: "\<not> runner_IsIdle (example_core\<lparr>runner_IsIdle := False\<rparr>)" by simp
  note idle = reload_gating_C8 [of example_core, THEN conjunct2, THEN mp, OF i]
  note busy = reload_gating_C8 [of "example_core\<lparr>runner_IsIdle := False\<rparr>", THEN conjunct1,
      THEN mp, OF b]
  have s: "scheduled (snd (ReloadData example_core)) = [''store'', ''stocks'']"
    using idle [THEN conjunct2, THEN conjunct2] by (simp add: example_core_def)
  show ?thesis
    by (intro conjI i b s idle [THEN conjunct1] busy [THEN conjunct1]
        busy [THEN conjunct2, THEN conjunct1] busy [THEN conjunct2, THEN conjunct2])
qed

end
